theory Spec2Isabelle
  imports
    Complex_Main
    "HOL-Library.Product_Lexorder"
    "HOL-Library.List_Lexorder"
    "HOL-Library.Multiset"
    "HOL-Library.Sublist"
begin

section \<open>Text\<close>

text \<open>
  A Python \<^verbatim>\<open>str\<close> is a sequence of Unicode code points. A code point is a natural
  number here, so that the Hangul syllable U+B144 of the year marker (45380) is one
  character, as it is for \<^verbatim>\<open>re\<close> and for \<^verbatim>\<open>str.split\<close>. Python compares strings
  code point by code point, a proper prefix first: the lexicographic order on lists.
\<close>

type_synonym pystr = "nat list"

definition ascii :: "string \<Rightarrow> pystr" where
  "ascii s = map of_char s"

text \<open>
  \<^verbatim>\<open>\d\<close> in a \<^verbatim>\<open>str\<close> pattern and \<^verbatim>\<open>int()\<close> both go by the Unicode decimal digits
  (category Nd), not by ASCII alone. The decimal digits come in runs of ten consecutive
  code points valued 0 to 9; \<open>decimal_runs\<close> lists where each run starts (Unicode 14,
  the table of CPython 3.11; the ASCII digits first).
\<close>

definition decimal_runs :: "nat list" where
  "decimal_runs =
    [48, 1632, 1776, 1984, 2406, 2534, 2662, 2790, 2918, 3046, 3174, 3302, 3430, 3558,
     3664, 3792, 3872, 4160, 4240, 6112, 6160, 6470, 6608, 6784, 6800, 6992, 7088, 7232,
     7248, 42528, 43216, 43264, 43472, 43504, 43600, 44016, 65296, 66720, 68912, 69734,
     69872, 69942, 70096, 70384, 70736, 70864, 71248, 71360, 71472, 71904, 72016, 72784,
     73040, 73120, 92768, 92864, 93008, 120782, 120792, 120802, 120812, 120822, 123200,
     123632, 125264, 130032]"

definition decimal_value :: "nat \<Rightarrow> nat option" where
  "decimal_value c =
    (case find (\<lambda>s. s \<le> c \<and> c < s + 10) decimal_runs of
       None \<Rightarrow> None
     | Some s \<Rightarrow> Some (c - s))"

definition isdecimal :: "nat \<Rightarrow> bool" where
  "isdecimal c = (decimal_value c \<noteq> None)"

text \<open>\<^verbatim>\<open>text.split('\n')\<close>: the pieces between line feeds; the empty text is one empty line.\<close>

fun split_lines :: "pystr \<Rightarrow> pystr list" where
  "split_lines [] = [[]]"
| "split_lines (c # cs) =
    (if c = 10 then [] # split_lines cs
     else (case split_lines cs of
             [] \<Rightarrow> [[c]]
           | l # ls \<Rightarrow> (c # l) # ls))"

text \<open>\<^verbatim>\<open>s.replace(',', '')\<close>.\<close>

definition remove_commas :: "pystr \<Rightarrow> pystr" where
  "remove_commas s = filter (\<lambda>c. c \<noteq> 44) s"

datatype py_error = KeyError | ValueError

text \<open>
  \<^verbatim>\<open>int(s)\<close> on a run of decimal digits. The program calls it on nothing else; on any
  other string the model raises, which is what \<^verbatim>\<open>int\<close> does on the empty string and on a
  string holding a comma or the year marker. CPython's cap on the length of a string it
  converts (4300 digits unless configured otherwise) is a limit of the runtime, as memory
  is, and is left out.
\<close>

definition int_of_digits :: "pystr \<Rightarrow> int" where
  "int_of_digits s =
    foldl (\<lambda>a c. 10 * a + int (case decimal_value c of None \<Rightarrow> 0 | Some d \<Rightarrow> d)) 0 s"

definition py_int :: "pystr \<Rightarrow> py_error + int" where
  "py_int s =
    (if s \<noteq> [] \<and> list_all isdecimal s then Inr (int_of_digits s) else Inl ValueError)"

section \<open>Regular expressions\<close>

text \<open>
  The fragment of \<^verbatim>\<open>re\<close> the three patterns are written in: \<^verbatim>\<open>\d\<close>, a literal
  character, concatenation, and the greedy counted repetition \<^verbatim>\<open>{lo,hi}\<close> (with
  \<^verbatim>\<open>+\<close> as \<^verbatim>\<open>{1,}\<close>, \<^verbatim>\<open>*\<close> as \<^verbatim>\<open>{0,}\<close> and \<^verbatim>\<open>?\<close> as \<^verbatim>\<open>{0,1}\<close>; no upper bound is
  \<open>None\<close>).
\<close>

datatype regex =
    Eps
  | Digit
  | Lit nat
  | Cat regex regex
  | Rep nat "nat option" regex

fun rsize :: "regex \<Rightarrow> nat" where
  "rsize Eps = 0"
| "rsize Digit = 0"
| "rsize (Lit a) = 0"
| "rsize (Cat r1 r2) = Suc (rsize r1 + rsize r2)"
| "rsize (Rep lo hi r) = Suc (rsize r)"

text \<open>
  \<open>matches r s\<close> lists the ways \<open>r\<close> matches at the start of \<open>s\<close>, as (matched text,
  rest of \<open>s\<close>), in the order a backtracking matcher tries them: a greedy repetition
  tries one more round before it tries to stop. A round that consumes nothing is not
  repeated.
\<close>

function matches :: "regex \<Rightarrow> pystr \<Rightarrow> (pystr \<times> pystr) list" where
  "matches Eps s = [([], s)]"
| "matches Digit s =
    (case s of [] \<Rightarrow> [] | c # cs \<Rightarrow> if isdecimal c then [([c], cs)] else [])"
| "matches (Lit a) s =
    (case s of [] \<Rightarrow> [] | c # cs \<Rightarrow> if c = a then [([c], cs)] else [])"
| "matches (Cat r1 r2) s =
    concat (map (\<lambda>(m1, s1). map (\<lambda>(m2, s2). (m1 @ m2, s2)) (matches r2 s1))
                (matches r1 s))"
| "matches (Rep lo hi r) s =
    (if hi = Some 0 then []
     else concat (map (\<lambda>(m1, s1).
            if length s1 < length s
            then map (\<lambda>(m2, s2). (m1 @ m2, s2))
                     (matches (Rep (lo - 1) (map_option (\<lambda>h. h - 1) hi) r) s1)
            else [])
          (matches r s)))
    @ (if lo = 0 then [([], s)] else [])"
  by pat_completeness auto
termination
  by (relation "measures [\<lambda>(r, s). rsize r, \<lambda>(r, s). length s]") auto

text \<open>
  A pattern of the program is a capturing group followed by the rest of the pattern.
  \<open>match_at\<close> is a match that starts at the first character: the group's text in the
  first way to match the group after which the rest matches too. \<open>search\<close> is
  \<^verbatim>\<open>re.search(...).group(1)\<close>: the leftmost start with a match, \<open>None\<close> when there is
  none.
\<close>

definition match_at :: "regex \<Rightarrow> regex \<Rightarrow> pystr \<Rightarrow> pystr option" where
  "match_at g t s =
    map_option fst (find (\<lambda>(m, rest). matches t rest \<noteq> []) (matches g s))"

fun search :: "regex \<Rightarrow> regex \<Rightarrow> pystr \<Rightarrow> pystr option" where
  "search g t s =
    (case match_at g t s of
       Some m \<Rightarrow> Some m
     | None \<Rightarrow> (case s of [] \<Rightarrow> None | c # cs \<Rightarrow> search g t cs))"

text \<open>\<^verbatim>\<open>year_pattern = r'(\d{4})\<close>U+B144\<^verbatim>\<open>'\<close>\<close>

definition year_group :: regex where
  "year_group = Rep 4 (Some 4) Digit"

definition year_rest :: regex where
  "year_rest = Lit 45380"

text \<open>\<^verbatim>\<open>size_pattern = r'(\d+(?:\.\d+)?SQ)'\<close>\<close>

definition size_group :: regex where
  "size_group =
    Cat (Rep 1 None Digit)
      (Cat (Rep 0 (Some 1) (Cat (Lit 46) (Rep 1 None Digit)))
        (Cat (Lit 83) (Lit 81)))"

text \<open>\<^verbatim>\<open>price_pattern = r'(\d{1,3}(?:,\d{3})*)'\<close>\<close>

definition price_group :: regex where
  "price_group =
    Cat (Rep 1 (Some 3) Digit) (Rep 0 None (Cat (Lit 44) (Rep 3 (Some 3) Digit)))"

section \<open>The extractor: \<^verbatim>\<open>load_and_process_data\<close>\<close>

record price_record =
  year :: int
  size_tok :: pystr
  price :: int

text \<open>
  The loop's variables. \<open>current_year\<close> and \<open>current_size\<close> start as \<^verbatim>\<open>None\<close> and
  hold the text of a group once a line has matched.
\<close>

record scan_state =
  current_year :: "pystr option"
  current_size :: "pystr option"
  cable_data :: "price_record list"

definition initial_state :: scan_state where
  "initial_state = \<lparr>current_year = None, current_size = None, cable_data = []\<rparr>"

text \<open>
  One round of the \<^verbatim>\<open>for line in lines\<close> loop. The first two branches end in
  \<^verbatim>\<open>continue\<close>. In the third, \<^verbatim>\<open>price_match and current_year and current_size\<close> is
  false when either variable is \<^verbatim>\<open>None\<close> or the empty string; \<^verbatim>\<open>int(...)\<close> of the
  price runs before the test \<^verbatim>\<open>price > 0\<close>, and \<^verbatim>\<open>int(current_year)\<close> when the
  dictionary is built.
\<close>

definition scan_line :: "scan_state \<Rightarrow> pystr \<Rightarrow> py_error + scan_state" where
  "scan_line st line =
    (case search year_group year_rest line of
       Some y \<Rightarrow> Inr (st\<lparr>current_year := Some y\<rparr>)
     | None \<Rightarrow>
        (case search size_group Eps line of
           Some z \<Rightarrow> Inr (st\<lparr>current_size := Some z\<rparr>)
         | None \<Rightarrow>
            (case search price_group Eps line of
               None \<Rightarrow> Inr st
             | Some p \<Rightarrow>
                (case current_year st of
                   None \<Rightarrow> Inr st
                 | Some y \<Rightarrow>
                    (if y = [] then Inr st
                     else
                      (case current_size st of
                         None \<Rightarrow> Inr st
                       | Some z \<Rightarrow>
                          (if z = [] then Inr st
                           else
                            (case py_int (remove_commas p) of
                               Inl e \<Rightarrow> Inl e
                             | Inr v \<Rightarrow>
                                (if 0 < v
                                 then
                                  (case py_int y of
                                     Inl e \<Rightarrow> Inl e
                                   | Inr yi \<Rightarrow>
                                      Inr (st\<lparr>cable_data := cable_data st @
                                        [\<lparr>year = yi, size_tok = z, price = v\<rparr>]\<rparr>))
                                 else Inr st)))))))))"

fun scan_lines :: "scan_state \<Rightarrow> pystr list \<Rightarrow> py_error + scan_state" where
  "scan_lines st [] = Inr st"
| "scan_lines st (l # ls) =
    (case scan_line st l of
       Inl e \<Rightarrow> Inl e
     | Inr st' \<Rightarrow> scan_lines st' ls)"

text \<open>
  \<^verbatim>\<open>pd.DataFrame(cable_data)\<close> takes its columns from the keys of the dictionaries:
  of an empty list it is a frame with no column at all, of any other it has the columns
  \<^verbatim>\<open>year\<close>, \<^verbatim>\<open>size\<close> and \<^verbatim>\<open>price\<close> and one row a record.
\<close>

datatype data_frame = NoColumns | Frame "price_record list"

definition DataFrame :: "price_record list \<Rightarrow> data_frame" where
  "DataFrame rs = (if rs = [] then NoColumns else Frame rs)"

text \<open>\<^verbatim>\<open>drop_duplicates()\<close> keeps the first of equal rows, where it stands.\<close>

fun keep_first :: "'a list \<Rightarrow> 'a list" where
  "keep_first [] = []"
| "keep_first (x # xs) = x # keep_first (filter (\<lambda>y. y \<noteq> x) xs)"

fun drop_duplicates :: "data_frame \<Rightarrow> data_frame" where
  "drop_duplicates NoColumns = NoColumns"
| "drop_duplicates (Frame rs) = Frame (keep_first rs)"

text \<open>
  \<^verbatim>\<open>sort_values(['year', 'size'])\<close> looks both labels up among the columns and raises
  \<^verbatim>\<open>KeyError\<close> when one is missing. With two keys the sort is the stable lexicographic
  one: rows equal in year and size keep their order.
\<close>

fun sort_values_year_size :: "data_frame \<Rightarrow> py_error + data_frame" where
  "sort_values_year_size NoColumns = Inl KeyError"
| "sort_values_year_size (Frame rs) = Inr (Frame (sort_key (\<lambda>r. (year r, size_tok r)) rs))"

text \<open>
  The function, from the text of the file's \<^verbatim>\<open>text\<close> field on (reading the file and the
  JSON is outside the model).
\<close>

definition load_and_process_data :: "pystr \<Rightarrow> py_error + data_frame" where
  "load_and_process_data text =
    (case scan_lines initial_state (split_lines text) of
       Inl e \<Rightarrow> Inl e
     | Inr st \<Rightarrow> sort_values_year_size (drop_duplicates (DataFrame (cable_data st))))"

section \<open>The analyzer\<close>

text \<open>
  The functions below get a frame that has its three columns (the loaded frame, or a
  selection of its rows): the list of its rows. Arithmetic on prices and years is that
  of the integers and the reals: the model leaves the rounding of floating-point
  numbers and the 64-bit range of a numeric column out.
\<close>

text \<open>\<^verbatim>\<open>col.isin(values)\<close> and \<^verbatim>\<open>df[mask]\<close>.\<close>

definition isin :: "'a list \<Rightarrow> 'a list \<Rightarrow> bool list" where
  "isin col vals = map (\<lambda>v. v \<in> set vals) col"

definition select_rows :: "'a list \<Rightarrow> bool list \<Rightarrow> 'a list" where
  "select_rows rows bmask = map fst (filter snd (zip rows bmask))"

text \<open>
  \<^verbatim>\<open>filtered_df = df[(df['year'].isin(selected_years)) & (df['size'].isin(selected_sizes))]\<close>
\<close>

definition filtered_df :: "price_record list \<Rightarrow> int list \<Rightarrow> pystr list \<Rightarrow> price_record list" where
  "filtered_df df selected_years selected_sizes =
    select_rows df
      (map2 (\<and>) (isin (map year df) selected_years) (isin (map size_tok df) selected_sizes))"

text \<open>
  \<^verbatim>\<open>calculate_price_changes(df, size)\<close>; the pair \<^verbatim>\<open>(None, None)\<close> is \<open>None\<close>.
  \<^verbatim>\<open>sort_values('year')\<close> does not promise an order among rows of one year; the model
  takes the stable one.
\<close>

definition calculate_price_changes :: "price_record list \<Rightarrow> pystr \<Rightarrow> (real \<times> real) option" where
  "calculate_price_changes df sz =
    (let size_data = sort_key year (select_rows df (map (\<lambda>s. s = sz) (map size_tok df)))
     in if length size_data \<ge> 2
        then
          (let initial_price = price (size_data ! 0);
               final_price = price (size_data ! (length size_data - 1));
               years_diff = year (size_data ! (length size_data - 1)) - year (size_data ! 0)
           in if years_diff > 0
              then
                (let total_change =
                       (real_of_int (final_price - initial_price) / real_of_int initial_price) * 100;
                     avg_annual_change =
                       ((real_of_int final_price / real_of_int initial_price)
                          powr (1 / real_of_int years_diff) - 1) * 100
                 in Some (total_change, avg_annual_change))
              else None)
        else None)"

text \<open>
  \<^verbatim>\<open>filtered_df.pivot(index='size', columns='year', values='price')\<close>: a table with a row
  for each size and a column for each year, both in ascending order, the price in the
  cell of a record and no value (\<^verbatim>\<open>NaN\<close>) in a cell without one. \<^verbatim>\<open>pivot\<close> raises
  \<^verbatim>\<open>ValueError\<close> (the index contains duplicate entries) when two rows have the same size
  and year. \<^verbatim>\<open>round(2)\<close> changes no whole number.
\<close>

record price_pivot =
  index :: "pystr list"
  columns :: "int list"
  cells :: "int option list list"

definition pivot :: "price_record list \<Rightarrow> py_error + price_pivot" where
  "pivot df =
    (if distinct (map (\<lambda>r. (size_tok r, year r)) df)
     then Inr \<lparr>index = sort (remdups (map size_tok df)),
               columns = sort (remdups (map year df)),
               cells = map (\<lambda>s. map (\<lambda>y.
                   map_of (map (\<lambda>r. ((size_tok r, year r), price r)) df) (s, y))
                 (sort (remdups (map year df))))
                 (sort (remdups (map size_tok df)))\<rparr>
     else Inl ValueError)"

section \<open>The grammars of the tokens\<close>

text \<open>
  The cross-section token of the specification: a number, whole or with a decimal
  point and a fraction, then the letters SQ.
\<close>

definition cross_section_token :: "pystr \<Rightarrow> bool" where
  "cross_section_token s =
    (let ds = takeWhile isdecimal s; r = dropWhile isdecimal s
     in ds \<noteq> [] \<and>
        (r = [83, 81] \<or>
         (case r of
            [] \<Rightarrow> False
          | c # r' \<Rightarrow>
              c = 46 \<and> takeWhile isdecimal r' \<noteq> [] \<and> dropWhile isdecimal r' = [83, 81])))"

text \<open>
  The price token of the specification: one to three digits, then any number of groups
  of a comma and three digits.
\<close>

fun comma_groups :: "pystr \<Rightarrow> bool" where
  "comma_groups [] = True"
| "comma_groups (c # d1 # d2 # d3 # r) =
    (c = 44 \<and> isdecimal d1 \<and> isdecimal d2 \<and> isdecimal d3 \<and> comma_groups r)"
| "comma_groups _ = False"

definition price_token :: "pystr \<Rightarrow> bool" where
  "price_token s =
    (1 \<le> length (takeWhile isdecimal s) \<and> length (takeWhile isdecimal s) \<le> 3
     \<and> comma_groups (dropWhile isdecimal s))"

section \<open>Terms of the specification\<close>

text \<open>
  The records of one size, and the years they span: what the specification calls the
  records for a size and their distinct years.
\<close>

definition records_for :: "price_record list \<Rightarrow> pystr \<Rightarrow> price_record list" where
  "records_for df sz = filter (\<lambda>r. size_tok r = sz) df"

definition years_of :: "price_record list \<Rightarrow> pystr \<Rightarrow> int set" where
  "years_of df sz = year ` set (records_for df sz)"

text \<open>
  What holds of the loop's variables after any number of lines: the year is four
  digits, the size is a cross-section token, and every record has a positive price and a
  cross-section token for its size.
\<close>

definition state_ok :: "scan_state \<Rightarrow> bool" where
  "state_ok st =
    ((case current_year st of None \<Rightarrow> True | Some y \<Rightarrow> length y = 4 \<and> list_all isdecimal y)
     \<and> (case current_size st of None \<Rightarrow> True | Some z \<Rightarrow> cross_section_token z)
     \<and> list_all (\<lambda>r. 0 < price r \<and> cross_section_token (size_tok r)) (cable_data st))"

section \<open>Example inputs\<close>

text \<open>The six lines of the round-trip scenario of the specification.\<close>

definition scenario_text :: pystr where
  "scenario_text =
     ascii ''2020'' @ [45380, 10] @ ascii ''2.5SQ'' @ [10] @ ascii ''1,000'' @ [10] @
     ascii ''2023'' @ [45380, 10] @ ascii ''2.5SQ'' @ [10] @ ascii ''1,300''"

text \<open>
  A state in which a year and a size have been read, and a text whose records come
  out of order and with a repeated price line.
\<close>

definition example_state :: scan_state where
  "example_state =
     \<lparr>current_year = Some (ascii ''2020''), current_size = Some (ascii ''4SQ''), cable_data = []\<rparr>"

definition shuffled_text :: pystr where
  "shuffled_text =
     ascii ''2023'' @ [45380, 10] @ ascii ''4SQ'' @ [10] @ ascii ''500'' @ [10] @
     ascii ''500'' @ [10] @ ascii ''2020'' @ [45380, 10] @ ascii ''4SQ'' @ [10] @
     ascii ''300'' @ [10] @ ascii ''2.5SQ'' @ [10] @ ascii ''100''"

section \<open>Properties of the analyzer\<close>

subsection \<open>Selecting rows\<close>

lemma select_rows_map: "select_rows xs (map P xs) = filter P xs"
  by (induction xs) (simp_all add: select_rows_def)

lemma map2_conj_map: "map2 (\<and>) (map P xs) (map Q xs) = map (\<lambda>x. P x \<and> Q x) xs"
  by (induction xs) simp_all

lemma filtered_df_filter:
  "filtered_df df ys ss = filter (\<lambda>r. year r \<in> set ys \<and> size_tok r \<in> set ss) df"
  unfolding filtered_df_def isin_def map_map comp_def
  by (simp only: map2_conj_map select_rows_map)

text \<open>
  Claim C7: for every record set and every selection of years and sizes, the filter
  returns exactly the records whose year is among the years and whose size is among the
  sizes, as a subsequence in the original order; with no year or no size selected the
  result is empty.
\<close>

theorem filtered_df_subsequence:
  "filtered_df df ys ss = filter (\<lambda>r. year r \<in> set ys \<and> size_tok r \<in> set ss) df
   \<and> subseq (filtered_df df ys ss) df
   \<and> filtered_df df [] ss = []
   \<and> filtered_df df ys [] = []"
  by (simp add: filtered_df_filter)

subsection \<open>Change statistics\<close>

lemma size_data_eq:
  "select_rows df (map (\<lambda>s. s = sz) (map size_tok df)) = records_for df sz"
  unfolding records_for_def map_map comp_def by (rule select_rows_map)

lemma sort_key_nonempty: "2 \<le> length xs \<Longrightarrow> sort_key f xs \<noteq> []"
proof
  assume "2 \<le> length xs" "sort_key f xs = []"
  then have "length (sort_key f xs) = 0" by simp
  then show False using \<open>2 \<le> length xs\<close> by simp
qed

lemma sorted_first_Min:
  assumes "sorted (map f xs)" "xs \<noteq> []"
  shows "f (xs ! 0) = Min (f ` set xs)"
proof -
  obtain x ys where xs: "xs = x # ys" using assms(2) by (cases xs) auto
  have "\<forall>y\<in>set ys. f x \<le> f y" using assms(1) by (simp add: xs)
  then have "Min (f ` set xs) = f x"
    by (intro Min_eqI) (auto simp: xs)
  then show ?thesis by (simp add: xs)
qed

lemma sorted_last_Max:
  assumes "sorted (map f xs)" "xs \<noteq> []"
  shows "f (xs ! (length xs - 1)) = Max (f ` set xs)"
proof -
  have l: "xs ! (length xs - 1) = last xs" using assms(2) by (simp add: last_conv_nth)
  have "\<forall>y\<in>set xs. f y \<le> f (last xs)"
  proof
    fix y assume "y \<in> set xs"
    then obtain i where i: "i < length xs" "xs ! i = y" by (auto simp: in_set_conv_nth)
    have "map f xs ! i \<le> map f xs ! (length xs - 1)"
      using assms(1) i(1) by (intro sorted_nth_mono) auto
    then show "f y \<le> f (last xs)" using i l assms(2) by simp
  qed
  moreover have "last xs \<in> set xs" using assms(2) by simp
  ultimately have "Max (f ` set xs) = f (last xs)"
    by (intro Max_eqI) auto
  then show ?thesis using l by simp
qed

lemma Max_eq_Min_card:
  fixes A :: "int set"
  assumes "finite A" "A \<noteq> {}"
  shows "Max A = Min A \<longleftrightarrow> card A < 2"
proof
  assume e: "Max A = Min A"
  have "A \<subseteq> {Min A}"
  proof
    fix a assume "a \<in> A"
    then have "Min A \<le> a" "a \<le> Max A" using assms(1) by auto
    then show "a \<in> {Min A}" using e by simp
  qed
  then have "card A \<le> card {Min A}" by (intro card_mono) auto
  then show "card A < 2" by simp
next
  assume c: "card A < 2"
  have "card A \<noteq> 0" using assms by simp
  then have "card A = 1" using c by linarith
  then obtain a where "A = {a}" by (auto simp: card_1_singleton_iff)
  then show "Max A = Min A" by simp
qed

lemma Min_le_Max_int:
  fixes A :: "int set"
  assumes "finite A" "A \<noteq> {}"
  shows "Min A \<le> Max A"
  using assms by (meson Max_ge Min_in)

lemma calculate_price_changes_unfold:
  "calculate_price_changes df sz =
    (let S = records_for df sz in
     if 2 \<le> length S \<and> Min (years_of df sz) < Max (years_of df sz)
     then Some ((real_of_int (price (sort_key year S ! (length S - 1)) - price (sort_key year S ! 0))
                  / real_of_int (price (sort_key year S ! 0))) * 100,
                ((real_of_int (price (sort_key year S ! (length S - 1))) / real_of_int (price (sort_key year S ! 0)))
                   powr (1 / real_of_int (Max (years_of df sz) - Min (years_of df sz))) - 1) * 100)
     else None)"
proof -
  let ?S = "records_for df sz"
  let ?sd = "sort_key year ?S"
  have len: "length ?sd = length ?S" by simp
  show ?thesis
  proof (cases "2 \<le> length ?S")
    case False
    then show ?thesis
      unfolding calculate_price_changes_def size_data_eq by (simp add: Let_def)
  next
    case True
    then have ne: "?sd \<noteq> []" by (rule sort_key_nonempty)
    have srt: "sorted (map year ?sd)" by (rule sorted_sort_key)
    have st: "set ?sd = set ?S" by simp
    have mn: "year (?sd ! 0) = Min (years_of df sz)"
      using sorted_first_Min [OF srt ne] by (simp add: years_of_def)
    have mx: "year (?sd ! (length ?S - 1)) = Max (years_of df sz)"
      using sorted_last_Max [OF srt ne] by (simp add: years_of_def)
    show ?thesis
      unfolding calculate_price_changes_def size_data_eq
      using True mn mx by (simp add: Let_def)
  qed
qed

text \<open>
  Claim C3: for every record set and size, the change statistics are absent exactly
  when the records of that size have fewer than two distinct years, or the span between
  their first and last year is zero; the same holds with fewer than two records in
  place of fewer than two distinct years. Absence is the value \<open>None\<close>: the function
  has no way to raise.
\<close>

theorem change_stats_absent_iff:
  "(calculate_price_changes df sz = None \<longleftrightarrow>
      card (years_of df sz) < 2
      \<or> (records_for df sz \<noteq> [] \<and> Max (years_of df sz) - Min (years_of df sz) = 0))
   \<and> (calculate_price_changes df sz = None \<longleftrightarrow>
      length (records_for df sz) < 2
      \<or> (records_for df sz \<noteq> [] \<and> Max (years_of df sz) - Min (years_of df sz) = 0))"
proof -
  let ?S = "records_for df sz"
  let ?Y = "years_of df sz"
  have fin: "finite ?Y" by (simp add: years_of_def)
  show ?thesis
  proof (cases "?S = []")
    case True
    then show ?thesis by (simp add: calculate_price_changes_unfold years_of_def)
  next
    case False
    then have ne: "?Y \<noteq> {}" by (simp add: years_of_def)
    have le: "Min ?Y \<le> Max ?Y" by (rule Min_le_Max_int [OF fin ne])
    have eq: "Max ?Y = Min ?Y \<longleftrightarrow> card ?Y < 2" by (rule Max_eq_Min_card [OF fin ne])
    have cl: "card ?Y \<le> length ?S"
      unfolding years_of_def by (metis card_image_le card_length le_trans List.finite_set)
    show ?thesis
    proof (cases "2 \<le> length ?S")
      case True
      then show ?thesis using le eq False
        by (auto simp: calculate_price_changes_unfold Let_def)
    next
      case False
      then have "card ?Y < 2" using cl by linarith
      then show ?thesis using False
        by (simp add: calculate_price_changes_unfold Let_def)
    qed
  qed
qed



subsection \<open>The pivot\<close>

text \<open>
  Claim C5 says that two records of one size and year with different prices are
  resolved by an aggregation and that a pivot with one cell for them is returned. On two
  such records no pivot is returned: \<^verbatim>\<open>pivot\<close> raises \<^verbatim>\<open>ValueError\<close>.
\<close>

theorem pivot_collision_counterexample:
  "pivot [\<lparr>year = 2020, size_tok = ascii ''4SQ'', price = 100\<rparr>,
          \<lparr>year = 2020, size_tok = ascii ''4SQ'', price = 120\<rparr>] = Inl ValueError"
  by (simp add: pivot_def)

text \<open>
  Claim C5, amended: when two records of the record set given to \<^verbatim>\<open>pivot\<close> have the
  same size and year, \<^verbatim>\<open>pivot\<close> raises \<^verbatim>\<open>ValueError\<close> and returns no pivot, whatever
  their prices and wherever they stand.
\<close>

theorem pivot_collision_raises:
  assumes "i < length df" "j < length df" "i \<noteq> j"
      and "size_tok (df ! i) = size_tok (df ! j)" "year (df ! i) = year (df ! j)"
  shows "pivot df = Inl ValueError"
proof -
  let ?ks = "map (\<lambda>r. (size_tok r, year r)) df"
  have "?ks ! i = ?ks ! j" using assms by simp
  then have "\<not> distinct ?ks"
    using assms(1,2,3) by (auto simp: distinct_conv_nth)
  then show ?thesis by (simp add: pivot_def)
qed

text \<open>The first and the third of three records collide.\<close>

theorem pivot_collision_raises_witness:
  "pivot [\<lparr>year = 2021, size_tok = ascii ''6SQ'', price = 70\<rparr>,
          \<lparr>year = 2020, size_tok = ascii ''4SQ'', price = 100\<rparr>,
          \<lparr>year = 2021, size_tok = ascii ''6SQ'', price = 75\<rparr>] = Inl ValueError"
  using pivot_collision_raises [of 0 "[\<lparr>year = 2021, size_tok = ascii ''6SQ'', price = 70\<rparr>,
          \<lparr>year = 2020, size_tok = ascii ''4SQ'', price = 100\<rparr>,
          \<lparr>year = 2021, size_tok = ascii ''6SQ'', price = 75\<rparr>]" 2]
  by simp

section \<open>Properties of the matcher\<close>

subsection \<open>Digits, literals and sequences\<close>

declare matches.simps(4,5) [simp del]

lemma not_decimal_marks:
  "\<not> isdecimal 44" "\<not> isdecimal 46" "\<not> isdecimal 83" "\<not> isdecimal 81" "\<not> isdecimal 45380"
  by (simp_all add: isdecimal_def decimal_value_def decimal_runs_def)

lemma matches_Rep_Digit_Cons:
  "isdecimal c \<Longrightarrow> matches (Rep lo hi Digit) (c # cs) =
     (if hi = Some 0 then []
      else map (\<lambda>(m2, s2). (c # m2, s2))
             (matches (Rep (lo - 1) (map_option (\<lambda>h. h - 1) hi) Digit) cs))
     @ (if lo = 0 then [([], c # cs)] else [])"
  by (subst matches.simps) simp

lemma matches_Rep_Digit_stop:
  "s = [] \<or> \<not> isdecimal (hd s) \<Longrightarrow>
     matches (Rep lo hi Digit) s = (if lo = 0 then [([], s)] else [])"
  by (subst matches.simps) (auto split: list.splits)

lemma matches_Rep_Digit:
  "(m, rest) \<in> set (matches (Rep lo hi Digit) s) \<Longrightarrow>
     s = m @ rest \<and> list_all isdecimal m \<and> lo \<le> length m
     \<and> (case hi of None \<Rightarrow> True | Some h \<Rightarrow> length m \<le> h)"
proof (induction s arbitrary: lo hi m rest)
  case Nil
  then show ?case by (simp add: matches_Rep_Digit_stop split: if_splits option.splits)
next
  case (Cons c cs)
  show ?case
  proof (cases "isdecimal c")
    case False
    with Cons.prems show ?thesis
      by (simp add: matches_Rep_Digit_stop split: if_splits option.splits)
  next
    case True
    from Cons.prems
    consider (more) m2 where "hi \<noteq> Some 0" "m = c # m2"
        "(m2, rest) \<in> set (matches (Rep (lo - 1) (map_option (\<lambda>h. h - 1) hi) Digit) cs)"
      | (stop) "lo = 0" "m = []" "rest = c # cs"
      unfolding matches_Rep_Digit_Cons [OF True] by (auto split: if_splits)
    then show ?thesis
    proof cases
      case more
      from Cons.IH [OF more(3)] True more(1,2) show ?thesis
        by (cases hi) auto
    next
      case stop
      then show ?thesis by (simp split: option.splits)
    qed
  qed
qed

lemma matches_Lit:
  "(m, rest) \<in> set (matches (Lit a) s) \<longleftrightarrow> m = [a] \<and> s = a # rest"
  by (cases s) auto

lemma matches_Cat:
  "(m, rest) \<in> set (matches (Cat r1 r2) s) \<longleftrightarrow>
     (\<exists>m1 s1 m2. (m1, s1) \<in> set (matches r1 s) \<and> (m2, rest) \<in> set (matches r2 s1) \<and> m = m1 @ m2)"
  by (auto simp: matches.simps(4) image_iff) force+

lemma matches_Opt:
  "(m, rest) \<in> set (matches (Rep 0 (Some 1) r) s) \<Longrightarrow>
     (m = [] \<and> rest = s) \<or> (m, rest) \<in> set (matches r s)"
  by (subst (asm) matches.simps) (auto simp: matches.simps(5) [of _ "Some 0"] split: if_splits)

lemma matches_Rep_iff:
  "(m, rest) \<in> set (matches (Rep lo hi r) s) \<longleftrightarrow>
     (hi \<noteq> Some 0 \<and>
      (\<exists>m1 s1 m2. (m1, s1) \<in> set (matches r s) \<and> length s1 < length s
         \<and> (m2, rest) \<in> set (matches (Rep (lo - 1) (map_option (\<lambda>h. h - 1) hi) r) s1)
         \<and> m = m1 @ m2))
     \<or> (lo = 0 \<and> m = [] \<and> rest = s)"
  by (subst matches.simps) (auto split: if_splits, force+)


subsection \<open>Searching\<close>

declare search.simps [simp del]

lemma search_Nil: "search g t [] = match_at g t []"
  by (subst search.simps) (simp split: option.splits)

lemma search_Cons:
  "search g t (c # cs) = (case match_at g t (c # cs) of Some m \<Rightarrow> Some m | None \<Rightarrow> search g t cs)"
  by (subst search.simps) (simp split: option.splits)

lemma match_at_Some:
  assumes "match_at g t s = Some m"
  shows "\<exists>rest. (m, rest) \<in> set (matches g s) \<and> matches t rest \<noteq> []"
proof -
  from assms obtain x where x: "find (\<lambda>(m, rest). matches t rest \<noteq> []) (matches g s) = Some x"
    and m: "m = fst x"
    by (auto simp: match_at_def)
  from x have "x \<in> set (matches g s)" "matches t (snd x) \<noteq> []"
    by (auto simp: find_Some_iff in_set_conv_nth case_prod_unfold)
  then show ?thesis using m by (intro exI [of _ "snd x"]) simp
qed

lemma match_at_Eps:
  "match_at g Eps s = (case matches g s of [] \<Rightarrow> None | x # xs \<Rightarrow> Some (fst x))"
  by (cases "matches g s") (auto simp: match_at_def)

lemma search_Some:
  "search g t s = Some m \<Longrightarrow>
     \<exists>pre post rest. s = pre @ post \<and> (m, rest) \<in> set (matches g post) \<and> matches t rest \<noteq> []"
proof (induction s)
  case Nil
  then show ?case using match_at_Some [of g t "[]" m] by (simp add: search_Nil)
next
  case (Cons c cs)
  show ?case
  proof (cases "match_at g t (c # cs)")
    case (Some m')
    with Cons.prems have "match_at g t (c # cs) = Some m" by (simp add: search_Cons)
    from match_at_Some [OF this] show ?thesis by (metis append_Nil)
  next
    case None
    with Cons.prems have "search g t cs = Some m" by (simp add: search_Cons)
    from Cons.IH [OF this] show ?thesis by (metis append_Cons)
  qed
qed

subsection \<open>The year and the size pattern\<close>

lemma year_search_Some:
  assumes "search year_group year_rest line = Some y"
  shows "length y = 4 \<and> list_all isdecimal y \<and> 45380 \<in> set line"
proof -
  from search_Some [OF assms] obtain pre post rest where
    l: "line = pre @ post" and m: "(y, rest) \<in> set (matches (Rep 4 (Some 4) Digit) post)"
    and t: "matches (Lit 45380) rest \<noteq> []"
    by (auto simp: year_group_def year_rest_def)
  from matches_Rep_Digit [OF m] have y: "post = y @ rest" "list_all isdecimal y" "length y = 4"
    by auto
  from t obtain r where "rest = 45380 # r" by (cases rest) (auto split: if_splits)
  then show ?thesis using y l by simp
qed

lemma year_search_None: "45380 \<notin> set line \<Longrightarrow> search year_group year_rest line = None"
  using year_search_Some [of line] by (cases "search year_group year_rest line") auto

lemma takeWhile_digits_stop:
  "list_all isdecimal ds \<Longrightarrow> \<not> isdecimal x \<Longrightarrow> takeWhile isdecimal (ds @ x # r) = ds"
  by (induction ds) auto

lemma dropWhile_digits_stop:
  "list_all isdecimal ds \<Longrightarrow> \<not> isdecimal x \<Longrightarrow> dropWhile isdecimal (ds @ x # r) = x # r"
  by (induction ds) auto

lemma size_group_token:
  assumes "(z, rest) \<in> set (matches size_group s)"
  shows "cross_section_token z \<and> 83 \<in> set z \<and> s = z @ rest"
proof -
  from assms obtain ds s1 ob s2 where
    ds: "(ds, s1) \<in> set (matches (Rep 1 None Digit) s)"
    and ob: "(ob, s2) \<in> set (matches (Rep 0 (Some 1) (Cat (Lit 46) (Rep 1 None Digit))) s1)"
    and s2: "s2 = 83 # 81 # rest" and z: "z = ds @ ob @ [83, 81]"
    unfolding size_group_def matches_Cat matches_Lit by auto
  from matches_Rep_Digit [OF ds] have d: "s = ds @ s1" "list_all isdecimal ds" "ds \<noteq> []"
    by auto
  from matches_Opt [OF ob] show ?thesis
  proof
    assume "ob = [] \<and> s2 = s1"
    then show ?thesis using d z s2
      by (simp add: cross_section_token_def takeWhile_digits_stop dropWhile_digits_stop
            not_decimal_marks)
  next
    assume "(ob, s2) \<in> set (matches (Cat (Lit 46) (Rep 1 None Digit)) s1)"
    then obtain fs where fs: "ob = 46 # fs" "s1 = 46 # fs @ s2" "list_all isdecimal fs" "fs \<noteq> []"
      unfolding matches_Cat matches_Lit using matches_Rep_Digit by fastforce
    then show ?thesis using d z s2
      by (simp add: cross_section_token_def takeWhile_digits_stop dropWhile_digits_stop
            not_decimal_marks)
  qed
qed

lemma size_search_Some:
  assumes "search size_group Eps line = Some z"
  shows "cross_section_token z \<and> 83 \<in> set line"
proof -
  from search_Some [OF assms] obtain pre post rest where
    l: "line = pre @ post" and m: "(z, rest) \<in> set (matches size_group post)"
    by auto
  from size_group_token [OF m] show ?thesis using l by auto
qed

lemma size_search_None: "83 \<notin> set line \<Longrightarrow> search size_group Eps line = None"
  using size_search_Some [of line] by (cases "search size_group Eps line") auto

lemma digits_no_marks:
  "list_all isdecimal line \<Longrightarrow> 45380 \<notin> set line \<and> 83 \<notin> set line"
  using not_decimal_marks by (auto simp: list_all_iff)

subsection \<open>The price pattern\<close>

lemma comma_group_match:
  assumes "(m, rest) \<in> set (matches (Cat (Lit 44) (Rep 3 (Some 3) Digit)) s)"
  shows "\<exists>d1 d2 d3. m = [44, d1, d2, d3] \<and> isdecimal d1 \<and> isdecimal d2 \<and> isdecimal d3
           \<and> s = m @ rest"
proof -
  from assms obtain ds s1 where m: "m = 44 # ds" "s = 44 # s1"
    and ds: "(ds, rest) \<in> set (matches (Rep 3 (Some 3) Digit) s1)"
    unfolding matches_Cat matches_Lit by auto
  from matches_Rep_Digit [OF ds] have d: "s1 = ds @ rest" "list_all isdecimal ds" "length ds = 3"
    by auto
  from d(3) obtain d1 d2 d3 where "ds = [d1, d2, d3]"
    by (auto simp: length_Suc_conv numeral_3_eq_3)
  then show ?thesis using m d by auto
qed

lemma comma_groups_sound:
  "(m, rest) \<in> set (matches (Rep lo None (Cat (Lit 44) (Rep 3 (Some 3) Digit))) s) \<Longrightarrow>
     comma_groups m \<and> s = m @ rest"
proof (induction "length s" arbitrary: s lo m rest rule: less_induct)
  case less
  from less.prems
  consider (more) m1 s1 m2 where
      "(m1, s1) \<in> set (matches (Cat (Lit 44) (Rep 3 (Some 3) Digit)) s)" "length s1 < length s"
      "(m2, rest) \<in> set (matches (Rep (lo - 1) None (Cat (Lit 44) (Rep 3 (Some 3) Digit))) s1)"
      "m = m1 @ m2"
    | (stop) "m = []" "rest = s"
    unfolding matches_Rep_iff [of m rest lo None] by auto
  then show ?case
  proof cases
    case more
    from less.hyps [OF more(2,3)] have ih: "comma_groups m2" "s1 = m2 @ rest" by auto
    from comma_group_match [OF more(1)] obtain d1 d2 d3 where
      "m1 = [44, d1, d2, d3]" "isdecimal d1" "isdecimal d2" "isdecimal d3" "s = m1 @ s1"
      by auto
    then show ?thesis using ih more(4) by simp
  next
    case stop
    then show ?thesis by simp
  qed
qed

lemma comma_groups_head: "comma_groups g \<Longrightarrow> g = [] \<or> (\<exists>r. g = 44 # r)"
  by (induction g rule: comma_groups.induct) auto

lemma comma_groups_digits: "comma_groups g \<Longrightarrow> list_all isdecimal (remove_commas g)"
  by (induction g rule: comma_groups.induct) (auto simp: remove_commas_def)

lemma digits_no_comma: "list_all isdecimal ds \<Longrightarrow> remove_commas ds = ds"
  unfolding remove_commas_def
  by (induction ds) (auto simp: not_decimal_marks)

lemma price_token_split:
  assumes "list_all isdecimal ds" "comma_groups g"
  shows "takeWhile isdecimal (ds @ g) = ds" "dropWhile isdecimal (ds @ g) = g"
proof -
  from comma_groups_head [OF assms(2)] show "takeWhile isdecimal (ds @ g) = ds"
    using assms(1) by (auto simp: takeWhile_digits_stop not_decimal_marks list_all_iff)
  from comma_groups_head [OF assms(2)] show "dropWhile isdecimal (ds @ g) = g"
    using assms(1) by (auto simp: dropWhile_digits_stop not_decimal_marks list_all_iff)
qed

lemma price_group_token:
  assumes "(p, rest) \<in> set (matches price_group s)"
  shows "price_token p \<and> s = p @ rest"
proof -
  from assms obtain ds s1 g where
    ds: "(ds, s1) \<in> set (matches (Rep 1 (Some 3) Digit) s)"
    and g: "(g, rest) \<in> set (matches (Rep 0 None (Cat (Lit 44) (Rep 3 (Some 3) Digit))) s1)"
    and p: "p = ds @ g"
    unfolding price_group_def matches_Cat by auto
  from matches_Rep_Digit [OF ds] have d: "s = ds @ s1" "list_all isdecimal ds" "1 \<le> length ds"
    "length ds \<le> 3" by auto
  from comma_groups_sound [OF g] have c: "comma_groups g" "s1 = g @ rest" by auto
  show ?thesis
    using d c p by (simp add: price_token_def price_token_split [OF d(2) c(1)])
qed

lemma price_token_int:
  assumes "price_token p"
  shows "py_int (remove_commas p) = Inr (int_of_digits (remove_commas p))"
proof -
  let ?ds = "takeWhile isdecimal p" and ?g = "dropWhile isdecimal p"
  have p: "p = ?ds @ ?g" by simp
  have ds: "list_all isdecimal ?ds" by (simp add: list_all_iff) (meson set_takeWhileD)
  have ne: "?ds \<noteq> []" using assms by (auto simp: price_token_def)
  have g: "comma_groups ?g" using assms by (simp add: price_token_def)
  have "remove_commas p = remove_commas ?ds @ remove_commas ?g"
    unfolding remove_commas_def filter_append [symmetric] by simp
  then have "remove_commas p = ?ds @ remove_commas ?g"
    using digits_no_comma [OF ds] by simp
  then show ?thesis
    using ds ne comma_groups_digits [OF g] by (simp add: py_int_def)
qed

lemma price_group_no_match:
  "s = [] \<or> \<not> isdecimal (hd s) \<Longrightarrow> matches price_group s = []"
  by (simp add: price_group_def matches.simps(4) matches_Rep_Digit_stop)


lemma price_match_at_None:
  "s = [] \<or> \<not> isdecimal (hd s) \<Longrightarrow> match_at price_group Eps s = None"
  by (simp add: match_at_Eps price_group_no_match)


lemma price_search_None:
  "\<forall>c\<in>set line. \<not> isdecimal c \<Longrightarrow> search price_group Eps line = None"
proof (induction line)
  case Nil
  then show ?case by (simp add: search_Nil price_match_at_None)
next
  case (Cons c cs)
  then show ?case by (simp add: search_Cons price_match_at_None)
qed


lemma price_search_token:
  assumes "search price_group Eps line = Some p"
  shows "price_token p"
proof -
  from search_Some [OF assms] obtain post rest where "(p, rest) \<in> set (matches price_group post)"
    by auto
  from price_group_token [OF this] show ?thesis by simp
qed

lemma price_match_three_digits:
  assumes "isdecimal d1" "isdecimal d2" "isdecimal d3" "isdecimal d4"
  shows "match_at price_group Eps (d1 # d2 # d3 # d4 # r) = Some [d1, d2, d3]"
proof -
  have c: "d4 \<noteq> 44" using assms(4) not_decimal_marks(1) by auto
  have g: "matches (Rep 0 None (Cat (Lit 44) (Rep 3 (Some 3) Digit))) (d4 # r) = [([], d4 # r)]"
    using c by (subst matches.simps) (simp add: matches.simps(4))
  have z: "matches (Rep 0 (Some 0) Digit) (d4 # r) = [([], d4 # r)]"
    by (subst matches.simps) simp
  have "\<exists>xs. matches price_group (d1 # d2 # d3 # d4 # r) = ([d1, d2, d3], d4 # r) # xs"
    by (simp add: price_group_def matches.simps(4) matches_Rep_Digit_Cons assms g z)
  then show ?thesis by (auto simp: match_at_Eps)
qed

lemma price_search_digits:
  assumes "list_all isdecimal line" "4 \<le> length line"
  shows "search price_group Eps line = Some (take 3 line)"
proof -
  from assms(2) obtain d1 d2 d3 d4 r where l: "line = d1 # d2 # d3 # d4 # r"
    by (auto simp: Suc_le_length_iff numeral_eq_Suc)
  with assms(1) have "isdecimal d1" "isdecimal d2" "isdecimal d3" "isdecimal d4" by auto
  from price_match_three_digits [OF this, of r] show ?thesis
    by (simp add: l search_Cons)
qed

section \<open>Properties of the extractor\<close>

subsection \<open>The loop\<close>

lemma year_token_int:
  "length y = 4 \<Longrightarrow> list_all isdecimal y \<Longrightarrow> py_int y = Inr (int_of_digits y)"
  by (auto simp: py_int_def)

lemma scan_line_price:
  assumes "search year_group year_rest line = None" "search size_group Eps line = None"
      and "search price_group Eps line = Some p"
      and "current_year st = Some y" "length y = 4" "list_all isdecimal y"
      and "current_size st = Some z" "z \<noteq> []"
  shows "scan_line st line =
     Inr (if 0 < int_of_digits (remove_commas p)
          then st\<lparr>cable_data := cable_data st @
                 [\<lparr>year = int_of_digits y, size_tok = z, price = int_of_digits (remove_commas p)\<rparr>]\<rparr>
          else st)"
proof -
  have y: "y \<noteq> []" using assms(5) by auto
  have p: "py_int (remove_commas p) = Inr (int_of_digits (remove_commas p))"
    by (rule price_token_int [OF price_search_token [OF assms(3)]])
  show ?thesis
    using assms y by (simp add: scan_line_def p year_token_int)
qed

lemma scan_line_unset:
  assumes "current_year st = None \<or> current_size st = None"
  shows "\<exists>st'. scan_line st line = Inr st' \<and> cable_data st' = cable_data st"
  using assms by (auto simp: scan_line_def split: option.splits)

lemma scan_line_zero_price:
  assumes "search year_group year_rest line = None" "search size_group Eps line = None"
      and "search price_group Eps line = Some p" "int_of_digits (remove_commas p) = 0"
  shows "scan_line st line = Inr st"
proof -
  have p: "py_int (remove_commas p) = Inr 0"
    using price_token_int [OF price_search_token [OF assms(3)]] assms(4) by simp
  show ?thesis
    using assms(1-3) by (simp add: scan_line_def p split: option.splits)
qed

lemma cross_section_token_nonempty: "cross_section_token z \<Longrightarrow> z \<noteq> []"
  by (auto simp: cross_section_token_def)

lemma scan_line_total:
  assumes "state_ok st"
  shows "\<exists>st'. scan_line st line = Inr st' \<and> state_ok st'"
proof (cases "search year_group year_rest line")
  case (Some y)
  from year_search_Some [OF Some] show ?thesis
    using assms Some by (simp add: scan_line_def state_ok_def)
next
  case None
  note ny = this
  show ?thesis
  proof (cases "search size_group Eps line")
    case (Some z)
    from size_search_Some [OF Some] show ?thesis
      using assms ny Some by (simp add: scan_line_def state_ok_def)
  next
    case None
    note nz = this
    show ?thesis
    proof (cases "search price_group Eps line")
      case None
      then show ?thesis using assms ny nz by (simp add: scan_line_def)
    next
      case (Some p)
      show ?thesis
      proof (cases "current_year st")
        case None
        then show ?thesis using assms ny nz Some by (simp add: scan_line_def)
      next
        case cy: (Some y)
        show ?thesis
        proof (cases "current_size st")
          case None
          then show ?thesis using assms ny nz Some cy by (simp add: scan_line_def)
        next
          case cs: (Some z)
          have yy: "length y = 4" "list_all isdecimal y" using assms cy by (auto simp: state_ok_def)
          have zz: "cross_section_token z" using assms cs by (auto simp: state_ok_def)
          then have zne: "z \<noteq> []" by (rule cross_section_token_nonempty)
          show ?thesis
            unfolding scan_line_price [OF ny nz Some cy yy cs zne]
            using assms zz cs by (auto simp: state_ok_def)
        qed
      qed
    qed
  qed
qed

lemma scan_lines_total:
  "state_ok st \<Longrightarrow> \<exists>st'. scan_lines st ls = Inr st' \<and> state_ok st'"
proof (induction ls arbitrary: st)
  case Nil
  then show ?case by simp
next
  case (Cons l ls)
  from scan_line_total [OF Cons.prems, of l] obtain st1 where
    "scan_line st l = Inr st1" "state_ok st1" by auto
  with Cons.IH [of st1] show ?case by simp
qed

lemma initial_state_ok: "state_ok initial_state"
  by (simp add: state_ok_def initial_state_def)

lemma set_keep_first: "set (keep_first xs) = set xs"
  by (induction xs rule: keep_first.induct) auto

lemma distinct_keep_first: "distinct (keep_first xs)"
  by (induction xs rule: keep_first.induct) (auto simp: set_keep_first)

lemma load_and_process_data_cases:
  obtains st where "scan_lines initial_state (split_lines text) = Inr st" "state_ok st"
    "load_and_process_data text =
       (if cable_data st = [] then Inl KeyError
        else Inr (Frame (sort_key (\<lambda>r. (year r, size_tok r)) (keep_first (cable_data st)))))"
proof -
  from scan_lines_total [OF initial_state_ok, of "split_lines text"] obtain st where
    st: "scan_lines initial_state (split_lines text) = Inr st" "state_ok st" by auto
  show ?thesis
    by (rule that [of st]) (simp_all add: st load_and_process_data_def DataFrame_def)
qed

lemma load_never_value_error: "load_and_process_data text \<noteq> Inl ValueError"
  by (rule load_and_process_data_cases [of "text"]) (simp split: if_splits)

subsection \<open>Evaluation of the examples\<close>

lemmas table_defs = isdecimal_def decimal_value_def decimal_runs_def

lemmas regex_defs = match_at_def search.simps matches.simps
  year_group_def year_rest_def size_group_def price_group_def

lemmas scan_defs = scan_line_def py_int_def int_of_digits_def remove_commas_def
  initial_state_def load_and_process_data_def DataFrame_def

lemma scenario_load:
  "load_and_process_data scenario_text =
     Inr (Frame [\<lparr>year = 2020, size_tok = ascii ''2.5SQ'', price = 1000\<rparr>,
                 \<lparr>year = 2023, size_tok = ascii ''2.5SQ'', price = 1300\<rparr>])"
  by (simp add: scenario_text_def ascii_def table_defs regex_defs scan_defs)

lemma shuffled_load:
  "load_and_process_data shuffled_text =
     Inr (Frame [\<lparr>year = 2020, size_tok = ascii ''2.5SQ'', price = 100\<rparr>,
                 \<lparr>year = 2020, size_tok = ascii ''4SQ'', price = 300\<rparr>,
                 \<lparr>year = 2023, size_tok = ascii ''4SQ'', price = 500\<rparr>])"
  by (simp add: shuffled_text_def ascii_def table_defs regex_defs scan_defs)

lemma zero_line_searches:
  "search year_group year_rest (ascii ''0'') = None"
  "search size_group Eps (ascii ''0'') = None"
  "search price_group Eps (ascii ''0'') = Some (ascii ''0'')"
  "int_of_digits (remove_commas (ascii ''0'')) = 0"
  by (simp_all add: ascii_def table_defs regex_defs scan_defs)


subsection \<open>Price lines\<close>



text \<open>
  Claim C10 says that every line of four or more digits, read under a year and a size,
  appends a record whose price is the integer of the first three digits. The line
  \<^verbatim>\<open>0001\<close> appends none: its first three digits are 0, and the test \<^verbatim>\<open>price > 0\<close>
  fails.
\<close>

theorem ungrouped_zero_run_counterexample:
  "scan_lines initial_state [ascii ''2020'' @ [45380], ascii ''4SQ'', ascii ''0001''] =
     Inr \<lparr>current_year = Some (ascii ''2020''), current_size = Some (ascii ''4SQ''),
          cable_data = []\<rparr>"
  by (simp add: ascii_def table_defs regex_defs scan_defs)

text \<open>
  Claim C10, amended: for a line that is nothing but four or more digits, read while
  the year and the size are set, the price is the integer of the first three digits of
  the line; a record with that price is appended when it is positive, and nothing is
  appended when the first three digits are zeros.
\<close>

theorem ungrouped_run_first_three:
  assumes "list_all isdecimal line" "4 \<le> length line"
      and "current_year st = Some y" "length y = 4" "list_all isdecimal y"
      and "current_size st = Some z" "z \<noteq> []"
  shows "scan_line st line =
     Inr (if 0 < int_of_digits (take 3 line)
          then st\<lparr>cable_data := cable_data st @
                 [\<lparr>year = int_of_digits y, size_tok = z, price = int_of_digits (take 3 line)\<rparr>]\<rparr>
          else st)"
proof -
  from digits_no_marks [OF assms(1)] have
    ny: "search year_group year_rest line = None" and nz: "search size_group Eps line = None"
    by (simp_all add: year_search_None size_search_None)
  have p: "search price_group Eps line = Some (take 3 line)"
    by (rule price_search_digits [OF assms(1,2)])
  have "list_all isdecimal (take 3 line)"
    using assms(1) by (auto simp: list_all_iff dest: in_set_takeD)
  then have r: "remove_commas (take 3 line) = take 3 line" by (rule digits_no_comma)
  show ?thesis
    using scan_line_price [OF ny nz p assms(3-7)] by (simp only: r)
qed

text \<open>The line \<^verbatim>\<open>1234\<close> yields the price 123.\<close>

theorem ungrouped_run_first_three_witness:
  "scan_line example_state (ascii ''1234'') =
     Inr (example_state\<lparr>cable_data :=
       [\<lparr>year = 2020, size_tok = ascii ''4SQ'', price = 123\<rparr>]\<rparr>)"
proof -
  have l: "list_all isdecimal (ascii ''1234'')" "4 \<le> length (ascii ''1234'')"
    by (simp_all add: ascii_def table_defs)
  have y: "current_year example_state = Some (ascii ''2020'')" "length (ascii ''2020'') = 4"
    "list_all isdecimal (ascii ''2020'')"
    "current_size example_state = Some (ascii ''4SQ'')" "ascii ''4SQ'' \<noteq> []"
    by (simp_all add: example_state_def ascii_def table_defs)
  have v: "int_of_digits (take 3 (ascii ''1234'')) = 123"
    "int_of_digits (ascii ''2020'') = 2020"
    by (simp_all add: ascii_def table_defs scan_defs)
  show ?thesis
    unfolding ungrouped_run_first_three [OF l y] v by (simp add: example_state_def)
qed

subsection \<open>The record set\<close>

text \<open>
  Claim C9: every record of the record set the extractor returns has a positive price
  and a size that is a cross-section token; a price line whose value is exactly 0 leaves
  the state as it is, so produces no record; and a price line read while the year or the
  size is not yet set produces no record.
\<close>

theorem extract_records_valid:
  "(load_and_process_data text = Inr (Frame rs) \<longrightarrow>
      (\<forall>r\<in>set rs. 0 < price r \<and> cross_section_token (size_tok r)))
   \<and> (search year_group year_rest line = None \<and> search size_group Eps line = None
        \<and> search price_group Eps line = Some p \<and> int_of_digits (remove_commas p) = 0 \<longrightarrow>
      scan_line st line = Inr st)
   \<and> (current_year st = None \<or> current_size st = None \<longrightarrow>
      (\<exists>st'. scan_line st line = Inr st' \<and> cable_data st' = cable_data st))"
proof (intro conjI impI)
  assume a: "load_and_process_data text = Inr (Frame rs)"
  show "\<forall>r\<in>set rs. 0 < price r \<and> cross_section_token (size_tok r)"
  proof (rule load_and_process_data_cases [of "text"])
    fix st0
    assume ok: "state_ok st0"
      and c: "load_and_process_data text =
        (if cable_data st0 = [] then Inl KeyError
         else Inr (Frame (sort_key (\<lambda>r. (year r, size_tok r)) (keep_first (cable_data st0)))))"
    have "rs = sort_key (\<lambda>r. (year r, size_tok r)) (keep_first (cable_data st0))"
      using a unfolding c by (simp split: if_splits)
    then have "set rs = set (cable_data st0)" by (simp add: set_keep_first)
    then show ?thesis using ok by (simp add: state_ok_def list_all_iff)
  qed
next
  assume "search year_group year_rest line = None \<and> search size_group Eps line = None
        \<and> search price_group Eps line = Some p \<and> int_of_digits (remove_commas p) = 0"
  then show "scan_line st line = Inr st" by (simp add: scan_line_zero_price)
next
  assume "current_year st = None \<or> current_size st = None"
  then show "\<exists>st'. scan_line st line = Inr st' \<and> cable_data st' = cable_data st"
    by (rule scan_line_unset)
qed

text \<open>
  The three parts at a text with three records, at the line \<^verbatim>\<open>0\<close> under a year and a
  size, and at a price line read first.
\<close>

theorem extract_records_valid_witness:
  "load_and_process_data shuffled_text =
     Inr (Frame [\<lparr>year = 2020, size_tok = ascii ''2.5SQ'', price = 100\<rparr>,
                 \<lparr>year = 2020, size_tok = ascii ''4SQ'', price = 300\<rparr>,
                 \<lparr>year = 2023, size_tok = ascii ''4SQ'', price = 500\<rparr>])
   \<and> list_all (\<lambda>r. 0 < price r \<and> cross_section_token (size_tok r))
        [\<lparr>year = 2020, size_tok = ascii ''2.5SQ'', price = 100\<rparr>,
         \<lparr>year = 2020, size_tok = ascii ''4SQ'', price = 300\<rparr>,
         \<lparr>year = 2023, size_tok = ascii ''4SQ'', price = (500::int)\<rparr>]
   \<and> scan_line example_state (ascii ''0'') = Inr example_state
   \<and> current_year initial_state = None
   \<and> (\<exists>st'. scan_line initial_state (ascii ''1,000'') = Inr st' \<and> cable_data st' = [])"
  using extract_records_valid [of shuffled_text
      "[\<lparr>year = 2020, size_tok = ascii ''2.5SQ'', price = 100\<rparr>,
        \<lparr>year = 2020, size_tok = ascii ''4SQ'', price = 300\<rparr>,
        \<lparr>year = 2023, size_tok = ascii ''4SQ'', price = 500\<rparr>]"
      "ascii ''0''" "ascii ''0''" example_state]
    extract_records_valid [of shuffled_text "[]" "ascii ''1,000''" "[]" initial_state]
    shuffled_load zero_line_searches
  by (simp add: list_all_iff initial_state_def)

text \<open>
  Claim C8: for every input text, the record set the extractor returns holds no record
  twice, and is sorted by year, records of one year by size as strings.
\<close>

theorem extract_distinct_sorted:
  assumes "load_and_process_data text = Inr (Frame rs)"
  shows "distinct rs \<and>
         sorted_wrt (\<lambda>a b. year a < year b \<or> (year a = year b \<and> size_tok a \<le> size_tok b)) rs"
proof (rule load_and_process_data_cases [of "text"])
  fix st
  assume c: "load_and_process_data text =
      (if cable_data st = [] then Inl KeyError
       else Inr (Frame (sort_key (\<lambda>r. (year r, size_tok r)) (keep_first (cable_data st)))))"
  have rs: "rs = sort_key (\<lambda>r. (year r, size_tok r)) (keep_first (cable_data st))"
    using assms unfolding c by (simp split: if_splits)
  have d: "distinct rs" by (simp add: rs distinct_keep_first)
  have "sorted (map (\<lambda>r. (year r, size_tok r)) rs)" unfolding rs by (rule sorted_sort_key)
  then have "sorted_wrt (\<lambda>a b. (year a, size_tok a) \<le> (year b, size_tok b)) rs"
    by (simp add: sorted_wrt_map)
  then have "sorted_wrt (\<lambda>a b. year a < year b \<or> (year a = year b \<and> size_tok a \<le> size_tok b)) rs"
    by (rule sorted_wrt_mono_rel [rotated]) auto
  with d show ?thesis by simp
qed

text \<open>A text with a repeated price line and its years out of order.\<close>

theorem extract_distinct_sorted_witness:
  "load_and_process_data shuffled_text =
     Inr (Frame [\<lparr>year = 2020, size_tok = ascii ''2.5SQ'', price = 100\<rparr>,
                 \<lparr>year = 2020, size_tok = ascii ''4SQ'', price = 300\<rparr>,
                 \<lparr>year = 2023, size_tok = ascii ''4SQ'', price = 500\<rparr>])
   \<and> distinct [\<lparr>year = 2020, size_tok = ascii ''2.5SQ'', price = 100\<rparr>,
                 \<lparr>year = 2020, size_tok = ascii ''4SQ'', price = 300\<rparr>,
                 \<lparr>year = 2023, size_tok = ascii ''4SQ'', price = (500::int)\<rparr>]
   \<and> sorted_wrt (\<lambda>a b. year a < year b \<or> (year a = year b \<and> size_tok a \<le> size_tok b))
        [\<lparr>year = 2020, size_tok = ascii ''2.5SQ'', price = 100\<rparr>,
                 \<lparr>year = 2020, size_tok = ascii ''4SQ'', price = 300\<rparr>,
                 \<lparr>year = 2023, size_tok = ascii ''4SQ'', price = (500::int)\<rparr>]"
  using extract_distinct_sorted [OF shuffled_load] shuffled_load by blast

text \<open>
  Claim C4 says that the extractor returns the empty record set for a text that yields
  no record. On the empty text, the default of \<^verbatim>\<open>data.get('text', '')\<close>, the frame has
  no column and \<^verbatim>\<open>sort_values\<close> raises \<^verbatim>\<open>KeyError\<close>.
\<close>

theorem empty_text_raises: "load_and_process_data [] = Inl KeyError"
  by (simp add: table_defs regex_defs scan_defs)

subsection \<open>The round trip\<close>

lemma cube_root_bounds:
  "\<bar>((13 / 10) powr (1 / 3) - 1) * 100 - 9.139\<bar> < (0.001 :: real)"
proof -
  define x :: real where "x = (13 / 10) powr (1 / 3)"
  have x0: "0 < x" by (simp add: x_def)
  have "x ^ 3 = x powr 3" using x0 by (simp add: powr_numeral)
  also have "\<dots> = (13 / 10) powr ((1 / 3) * 3)" unfolding x_def by (simp only: powr_powr)
  also have "\<dots> = 13 / 10" by simp
  finally have x3: "x ^ 3 = 13 / 10" .
  have lo: "1.09138 < x"
  proof (rule ccontr)
    assume "\<not> 1.09138 < x"
    then have "x \<le> 1.09138" by simp
    then have "x ^ 3 \<le> 1.09138 ^ 3" using x0 by (intro power_mono) auto
    then show False unfolding x3 by (simp add: power3_eq_cube)
  qed
  have hi: "x < 1.0914"
  proof (rule ccontr)
    assume "\<not> x < 1.0914"
    then have "1.0914 \<le> x" by simp
    then have "1.0914 ^ 3 \<le> x ^ 3" by (intro power_mono) auto
    then show False unfolding x3 by (simp add: power3_eq_cube)
  qed
  have a: "(x - 1) * 100 - 9.139 < 0.001" using hi by simp
  have b: "- ((x - 1) * 100 - 9.139) < 0.001" using lo by simp
  have "\<bar>(x - 1) * 100 - 9.139\<bar> < 0.001"
    by (rule abs_less_iff [THEN iffD2, OF conjI [OF a b]])
  then show ?thesis by (simp only: x_def)
qed

lemma scenario_stats:
  "calculate_price_changes
     [\<lparr>year = 2020, size_tok = ascii ''2.5SQ'', price = 1000\<rparr>,
      \<lparr>year = 2023, size_tok = ascii ''2.5SQ'', price = 1300\<rparr>] (ascii ''2.5SQ'')
   = Some (30, ((13 / 10) powr (1 / 3) - 1) * 100)"
  by (simp add: calculate_price_changes_def select_rows_def ascii_def)

text \<open>
  Claim C1: the six-line text yields exactly the two records of 2020 and 2023, and
  their change statistics for the size 2.5SQ are a total change of 30 and an average
  annual change of \<open>(1.3 powr (1/3) - 1) * 100\<close>, which is 9.139 to three decimals.
\<close>

theorem round_trip_scenario:
  "load_and_process_data scenario_text =
     Inr (Frame [\<lparr>year = 2020, size_tok = ascii ''2.5SQ'', price = 1000\<rparr>,
                 \<lparr>year = 2023, size_tok = ascii ''2.5SQ'', price = 1300\<rparr>])
   \<and> calculate_price_changes
        [\<lparr>year = 2020, size_tok = ascii ''2.5SQ'', price = 1000\<rparr>,
         \<lparr>year = 2023, size_tok = ascii ''2.5SQ'', price = 1300\<rparr>] (ascii ''2.5SQ'')
       = Some (30, ((13 / 10) powr (1 / 3) - 1) * 100)
   \<and> \<bar>((13 / 10) powr (1 / 3) - 1) * 100 - 9.139\<bar> < (0.001 :: real)"
  using scenario_load scenario_stats cube_root_bounds by blast

end
